theory Spec2Isabelle
  imports Main "HOL-Library.AList" "HOL-Library.Multiset"
begin

section \<open>JavaScript values and objects\<close>

text \<open>
  The setup wizard service (\<^verbatim>\<open>SetupService.js\<close>) reads request bodies and builds
  configuration objects. The values that occur there are primitives: \<^verbatim>\<open>undefined\<close>,
  \<^verbatim>\<open>null\<close>, booleans, numbers and strings. Numbers are integers here (no \<^verbatim>\<open>NaN\<close>, no
  fractions); nested objects and arrays in a request body are left out.
\<close>

datatype jsval = JUndef | JNull | JBool bool | JNum int | JStr string

fun truthy :: "jsval \<Rightarrow> bool" where
  "truthy JUndef = False"
| "truthy JNull = False"
| "truthy (JBool b) = b"
| "truthy (JNum n) = (n \<noteq> 0)"
| "truthy (JStr s) = (s \<noteq> [])"

definition js_or :: "jsval \<Rightarrow> jsval \<Rightarrow> jsval" where
  \<comment> \<open>\<^verbatim>\<open>a || b\<close>\<close>
  "js_or a b = (if truthy a then a else b)"

fun digits :: "nat \<Rightarrow> string" where
  "digits n = (if n < 10 then [char_of (48 + n)]
               else digits (n div 10) @ [char_of (48 + n mod 10)])"

declare digits.simps [simp del]

fun js_to_string :: "jsval \<Rightarrow> string" where
  \<comment> \<open>the string conversion of \<^verbatim>\<open>"..." + v\<close>\<close>
  "js_to_string JUndef = ''undefined''"
| "js_to_string JNull = ''null''"
| "js_to_string (JBool b) = (if b then ''true'' else ''false'')"
| "js_to_string (JNum n) = (if n < 0 then CHR ''-'' # digits (nat (- n)) else digits (nat n))"
| "js_to_string (JStr s) = s"

text \<open>
  A character of a string stands for the code unit of the same number, so the strings
  here are those whose code units are below 256. Among these, \<^verbatim>\<open>String.prototype.trim\<close>
  strips tab, line feed, vertical tab, form feed, carriage return, space and the
  no-break space U+00A0.
\<close>

definition js_space :: "char \<Rightarrow> bool" where
  "js_space c =
     (c \<in> set [CHR '' '', CHR 0x09, CHR 0x0A, CHR 0x0B, CHR 0x0C, CHR 0x0D, CHR 0xA0])"

definition js_trim :: "string \<Rightarrow> string" where
  "js_trim s = rev (dropWhile js_space (rev (dropWhile js_space s)))"

text \<open>
  An object is an association list: property order is insertion order, and writing an
  existing property keeps its place (\<^const>\<open>AList.update\<close>).
\<close>

type_synonym obj = "(string \<times> jsval) list"

definition get_prop :: "obj \<Rightarrow> string \<Rightarrow> jsval" where
  \<comment> \<open>\<^verbatim>\<open>o.k\<close>: a missing property reads as \<^verbatim>\<open>undefined\<close>\<close>
  "get_prop ob k = (case map_of ob k of None \<Rightarrow> JUndef | Some v \<Rightarrow> v)"

definition has_prop :: "string \<Rightarrow> obj \<Rightarrow> bool" where
  \<comment> \<open>\<^verbatim>\<open>k in o\<close>\<close>
  "has_prop k ob = (k \<in> set (map fst ob))"

definition set_prop :: "string \<Rightarrow> jsval \<Rightarrow> obj \<Rightarrow> obj" where
  \<comment> \<open>\<^verbatim>\<open>o.k = v\<close>\<close>
  "set_prop k v ob = AList.update k v ob"

definition spread :: "obj \<Rightarrow> obj \<Rightarrow> obj" where
  \<comment> \<open>\<^verbatim>\<open>{ ...a, ...b }\<close>, and the target of \<^verbatim>\<open>Object.assign(a, b)\<close>\<close>
  "spread a b = fold (\<lambda>(k, v). AList.update k v) b a"

definition json_stringify :: "obj \<Rightarrow> obj" where
  \<comment> \<open>the properties that \<^verbatim>\<open>JSON.stringify\<close> writes: those whose value is not \<^verbatim>\<open>undefined\<close>\<close>
  "json_stringify ob = filter (\<lambda>(k, v). v \<noteq> JUndef) ob"

section \<open>Errors, requests, responses\<close>

datatype error = Error string | TypeError string | IOError string

fun message :: "error \<Rightarrow> string" where
  "message (Error m) = m"
| "message (TypeError m) = m"
| "message (IOError m) = m"

record request =
  req_path :: string
  req_method :: string
  req_query :: obj
  req_body :: obj
  req_ip :: string

datatype response =
    Redirect string
  | Json nat obj       \<comment> \<open>\<^verbatim>\<open>res.status(n).json(o)\<close>; \<^verbatim>\<open>res.json(o)\<close> is status 200\<close>

datatype middleware_result = Next | Responded response

section \<open>The state the service works on\<close>

record user =
  user_id :: nat
  uuid :: string
  username :: string
  password :: string

datatype content =
    Text string
  | JsonText obj      \<comment> \<open>the text \<^verbatim>\<open>JSON.stringify(o, null, 2)\<close>\<close>

text \<open>
  \<open>setupCompleted\<close> is \<^verbatim>\<open>this.setupCompleted\<close>; \<open>setupToken\<close> is the variable of that name
  that the route handlers close over (\<open>None\<close> is \<^verbatim>\<open>null\<close>); \<open>files\<close> is the file
  system below the working directory; \<open>config\<close> is the application's configuration
  object (\<^verbatim>\<open>require("../../config")\<close>); \<open>users\<close> is the user table; \<open>now\<close> is what
  \<^verbatim>\<open>new Date().toISOString()\<close> returns. \<open>fs_fails p\<close> says that writing or removing the
  file \<open>p\<close> throws. Directories are not modelled: every \<^verbatim>\<open>mkdir\<close> of the source sits in
  a \<^verbatim>\<open>try\<close> whose \<^verbatim>\<open>catch\<close> only logs. Logging is not modelled.
\<close>

record world =
  setupCompleted :: bool
  setupToken :: "string option"
  files :: "string \<Rightarrow> content option"
  fs_fails :: "string \<Rightarrow> bool"
  config :: obj
  users :: "user list"
  now :: string

definition writeFile :: "string \<Rightarrow> content \<Rightarrow> world \<Rightarrow> error + world" where
  "writeFile p c w =
     (if fs_fails w p then Inl (IOError (''EACCES: '' @ p))
      else Inr (w\<lparr>files := (files w)(p \<mapsto> c)\<rparr>))"

definition existsSync :: "string \<Rightarrow> world \<Rightarrow> bool" where
  "existsSync p w = (files w p \<noteq> None)"

definition unlinkSync :: "string \<Rightarrow> world \<Rightarrow> error + world" where
  "unlinkSync p w =
     (if files w p = None then Inl (IOError (''ENOENT: '' @ p))
      else if fs_fails w p then Inl (IOError (''EACCES: '' @ p))
      else Inr (w\<lparr>files := (files w)(p := None)\<rparr>))"

definition setup_completed_path :: string where
  "setup_completed_path = ''config/setup-completed''"

definition admin_password_path :: string where
  "admin_password_path = ''config/admin-password''"

definition tokenPath :: string where
  "tokenPath = ''config/setup-token''"

definition wizard_config_path :: string where
  "wizard_config_path = ''config/wizard-config.json''"

definition passwordLogPath :: string where
  "passwordLogPath = ''config/admin-password-log.txt''"

section \<open>The completion marker\<close>

definition isSetupCompleted :: "world \<Rightarrow> bool" where
  \<comment> \<open>\<^verbatim>\<open>fs.access\<close> succeeds iff the marker is there; the \<^verbatim>\<open>catch\<close> returns false\<close>
  "isSetupCompleted w = existsSync setup_completed_path w"

definition markSetupCompleted :: "jsval \<Rightarrow> world \<Rightarrow> (error + bool) \<times> world" where
  "markSetupCompleted adminPassword w =
     (case writeFile setup_completed_path (Text (now w)) w of
        Inl writeErr \<Rightarrow> (Inl writeErr, w)
      | Inr w1 \<Rightarrow>
          (if truthy adminPassword then
             (case adminPassword of
                JStr s \<Rightarrow>
                  (case writeFile admin_password_path (Text s) w1 of
                     Inl writeErr \<Rightarrow> (Inl writeErr, w1)
                   | Inr w2 \<Rightarrow> (Inr True, w2\<lparr>setupCompleted := True\<rparr>))
              | _ \<Rightarrow> (Inl (TypeError ''The data argument must be of type string''), w1))
           else (Inr True, w1\<lparr>setupCompleted := True\<rparr>)))"

section \<open>The token check\<close>

definition token_differs :: "jsval \<Rightarrow> string option \<Rightarrow> bool" where
  \<comment> \<open>\<^verbatim>\<open>token !== setupToken\<close>, where \<^verbatim>\<open>setupToken\<close> is a string or \<^verbatim>\<open>null\<close>\<close>
  "token_differs token st =
     (case st of None \<Rightarrow> token \<noteq> JNull | Some s \<Rightarrow> token \<noteq> JStr s)"

definition verifySetupToken :: "request \<Rightarrow> world \<Rightarrow> middleware_result" where
  "verifySetupToken req w =
     (if req_path req = ''/__setup/token'' then Next
      else if req_path req = ''/__setup/reset-instructions'' then Next
      else if req_path req = ''/__setup'' \<and> req_method req = ''GET'' then Next
      else if req_path req = ''/'' \<and> req_method req = ''GET'' \<and> \<not> setupCompleted w then Next
      else
        (let token = js_or (get_prop (req_query req) ''token'') (get_prop (req_body req) ''token'')
         in if \<not> truthy token \<or> token_differs token (setupToken w)
            then Responded (Redirect ''/__setup/token'')
            else Next))"

text \<open>
  Modelled from the spec: the helper \<^verbatim>\<open>Endpoint\<close> of \<^verbatim>\<open>util/expressutil\<close> is not part of
  the source file. A request passes the token check before it reaches the handler (spec,
  section 2): the middleware of a route run in order, and the first one that answers
  instead of calling \<^verbatim>\<open>next\<close> ends the request.
\<close>

fun Endpoint ::
  "(request \<Rightarrow> world \<Rightarrow> middleware_result) list \<Rightarrow> (request \<Rightarrow> world \<Rightarrow> response \<times> world)
     \<Rightarrow> request \<Rightarrow> world \<Rightarrow> response \<times> world" where
  "Endpoint [] handler req w = handler req w"
| "Endpoint (m # ms) handler req w =
     (case m req w of Next \<Rightarrow> Endpoint ms handler req w | Responded r \<Rightarrow> (r, w))"

section \<open>The step registry\<close>

type_synonym process = "obj \<Rightarrow> request \<Rightarrow> world \<Rightarrow> (error + obj) \<times> world"

datatype order_val = OAbsent | ONull | ONum int

text \<open>The argument of \<^verbatim>\<open>registerConfigStep\<close>: any field may be missing.\<close>

record step_def =
  sd_id :: "string option"
  sd_title :: "string option"
  sd_description :: "string option"
  sd_required :: "bool option"
  sd_order :: order_val
  sd_template :: "string option"
  sd_process :: "process option"

text \<open>An entry of \<^verbatim>\<open>this.configSteps\<close>.\<close>

record config_step =
  cs_id :: string
  cs_title :: string
  cs_description :: string
  cs_required :: bool
  cs_order :: int
  cs_template :: string
  cs_process :: process

fun order_or_999 :: "order_val \<Rightarrow> int" where
  \<comment> \<open>\<^verbatim>\<open>step.order || 999\<close>\<close>
  "order_or_999 (ONum n) = (if n = 0 then 999 else n)"
| "order_or_999 OAbsent = 999"
| "order_or_999 ONull = 999"

definition entry_of :: "step_def \<Rightarrow> config_step option" where
  \<comment> \<open>the object that is pushed; \<open>None\<close> when the check at the top of
      \<^verbatim>\<open>registerConfigStep\<close> throws\<close>
  "entry_of step =
     (case (sd_id step, sd_title step, sd_template step, sd_process step) of
        (Some i, Some t, Some tpl, Some p) \<Rightarrow>
          (if i = [] \<or> t = [] \<or> tpl = [] then None
           else Some \<lparr>cs_id = i, cs_title = t,
                      cs_description = (case sd_description step of None \<Rightarrow> [] | Some d \<Rightarrow> d),
                      cs_required = (sd_required step \<noteq> Some False),
                      cs_order = order_or_999 (sd_order step),
                      cs_template = tpl, cs_process = p\<rparr>)
      | _ \<Rightarrow> None)"

text \<open>
  \<^verbatim>\<open>this.configSteps.sort((a, b) => a.order - b.order)\<close>: \<^verbatim>\<open>Array.prototype.sort\<close> is a
  stable sort (ECMAScript 2019), here by ascending \<^verbatim>\<open>order\<close>; \<^const>\<open>sort_key\<close> is the
  stable insertion sort.
\<close>

definition registerConfigStep :: "step_def \<Rightarrow> config_step list \<Rightarrow> error + config_step list" where
  "registerConfigStep step configSteps =
     (case entry_of step of
        None \<Rightarrow> Inl (Error ''Configuration step must have id, title, template and process function'')
      | Some e \<Rightarrow> Inr (sort_key cs_order (configSteps @ [e])))"

section \<open>The pipeline\<close>

fun steps_loop ::
  "config_step list \<Rightarrow> obj \<Rightarrow> request \<Rightarrow> obj \<Rightarrow> jsval \<Rightarrow> world \<Rightarrow> (error + obj \<times> jsval) \<times> world" where
  "steps_loop [] data req cfg adminPassword w = (Inr (cfg, adminPassword), w)"
| "steps_loop (step # rest) data req cfg adminPassword w =
     (case cs_process step data req w of
        (Inl e, w1) \<Rightarrow> (Inl e, w1)
      | (Inr stepConfig, w1) \<Rightarrow>
          steps_loop rest data req (spread cfg stepConfig)
            (if cs_id step = ''adminPassword'' \<and> truthy (get_prop data ''adminPassword'')
             then get_prop data ''adminPassword'' else adminPassword) w1)"

definition processConfigSteps ::
  "config_step list \<Rightarrow> obj \<Rightarrow> request \<Rightarrow> world \<Rightarrow> (error + obj) \<times> world" where
  "processConfigSteps configSteps data req w =
     (case steps_loop configSteps data req [] JNull w of
        (Inl e, w1) \<Rightarrow> (Inl e, w1)
      | (Inr (cfg, adminPassword), w1) \<Rightarrow>
          (Inr (if truthy adminPassword then set_prop ''__adminPassword'' adminPassword cfg
                else cfg), w1))"

section \<open>Committing the configuration\<close>

definition updateConfig :: "obj \<Rightarrow> world \<Rightarrow> (error + bool) \<times> world" where
  "updateConfig newConfig w =
     (let w1 = w\<lparr>config := spread (config w) newConfig\<rparr>
      in case writeFile wizard_config_path (JsonText (json_stringify newConfig)) w1 of
           Inl e \<Rightarrow> (Inl e, w1)
         | Inr w2 \<Rightarrow> (Inr True, w2))"

definition restartRequiredOptions :: "string list" where
  "restartRequiredOptions =
     [''domain'', ''experimental_no_subdomain'', ''http_port'', ''api_base_url'', ''origin'']"

definition requiresRestart :: "obj \<Rightarrow> bool" where
  "requiresRestart newConfig = list_ex (\<lambda>option. has_prop option newConfig) restartRequiredOptions"

section \<open>The admin password\<close>

text \<open>
  What \<^verbatim>\<open>updateAdminPassword\<close> calls but the file does not define is a parameter:
  \<open>get_user\<close> is the user lookup of \<^verbatim>\<open>helpers\<close> (by user name, uncached), \<open>bcrypt_hash\<close>
  is \<^verbatim>\<open>bcrypt.genSalt\<close> followed by \<^verbatim>\<open>bcrypt.hash\<close>, \<open>bcrypt_compare\<close> is
  \<^verbatim>\<open>bcrypt.compare\<close>, and \<open>services\<close> is the service container. A database service
  offers \<^verbatim>\<open>knex\<close>, \<^verbatim>\<open>query\<close>, both or neither; each, given the user id and the new hash,
  updates the user table or throws.
\<close>

type_synonym db_update = "nat \<Rightarrow> string \<Rightarrow> user list \<Rightarrow> error + user list"

record dbservice =
  knex :: "db_update option"
  query :: "db_update option"

record env =
  get_user :: "string \<Rightarrow> user list \<Rightarrow> user option"
  bcrypt_hash :: "string \<Rightarrow> string"
  bcrypt_compare :: "string \<Rightarrow> string \<Rightarrow> bool"
  services :: "string \<Rightarrow> dbservice option"

definition possibleServices :: "string list" where
  "possibleServices = [''database'', ''db'', ''sql'', ''sqlite'', ''database-access'']"

fun first_service :: "env \<Rightarrow> string list \<Rightarrow> dbservice option" where
  "first_service env [] = None"
| "first_service env (serviceName # names) =
     (case services env serviceName of
        Some service \<Rightarrow> Some service
      | None \<Rightarrow> first_service env names)"

definition findDatabaseService :: "env \<Rightarrow> error + dbservice" where
  "findDatabaseService env =
     (case first_service env possibleServices of
        Some service \<Rightarrow> Inr service
      | None \<Rightarrow> Inl (Error ''No database service found''))"

definition db_set_password :: "dbservice \<Rightarrow> nat \<Rightarrow> string \<Rightarrow> user list \<Rightarrow> error + user list" where
  \<comment> \<open>the update through \<^verbatim>\<open>knex\<close> if the service has it, else through \<^verbatim>\<open>query\<close>\<close>
  "db_set_password dbService uid passwordHash us =
     (case knex dbService of
        Some upd \<Rightarrow> upd uid passwordHash us
      | None \<Rightarrow>
          (case query dbService of
             Some upd \<Rightarrow> upd uid passwordHash us
           | None \<Rightarrow> Inl (Error ''No valid query method found in database service'')))"

definition password_log_line :: "string \<Rightarrow> string \<Rightarrow> string" where
  "password_log_line pw time = ''Admin password was set to: '' @ pw @ '' at '' @ time"

definition updateAdminPassword :: "env \<Rightarrow> string \<Rightarrow> world \<Rightarrow> (error + unit) \<times> world" where
  "updateAdminPassword env pw w =
     (if pw = [] \<or> js_trim pw = [] then (Inl (Error ''Empty password provided''), w)
      else
        (case get_user env ''admin'' (users w) of
           None \<Rightarrow> (Inl (Error ''Admin user not found''), w)
         | Some u \<Rightarrow>
             (let passwordHash = bcrypt_hash env pw in
              case findDatabaseService env of
                Inl e \<Rightarrow> (Inl e, w)
              | Inr dbService \<Rightarrow>
                  (case db_set_password dbService (user_id u) passwordHash (users w) of
                     Inl dbError \<Rightarrow> (Inl dbError, w)
                   | Inr us \<Rightarrow>
                       (let w1 = w\<lparr>users := us\<rparr> in
                        case get_user env ''admin'' (users w1) of
                          None \<Rightarrow> (Inl (Error ''Failed to verify password update''), w1)
                        | Some updatedUser \<Rightarrow>
                            (if bcrypt_compare env pw (password updatedUser) then
                               (case writeFile passwordLogPath
                                       (Text (password_log_line pw (now w1))) w1 of
                                  Inl logError \<Rightarrow> (Inr (), w1)
                                | Inr w2 \<Rightarrow> (Inr (), w2))
                             else (Inl (Error ''Password verification failed''), w1)))))))"

section \<open>The default steps\<close>

definition subdomain_process :: process where
  "subdomain_process data req w =
     (Inr [(''experimental_no_subdomain'',
            JBool (get_prop data ''subdomainBehavior'' = JStr ''disabled''))], w)"

definition domain_process :: process where
  "domain_process data req w =
     (Inr [(''domain'',
            if truthy (get_prop data ''useNipIo'')
            then JStr (map (\<lambda>c. if c = CHR ''.'' then CHR ''-'' else c) (req_ip req) @ ''.nip.io'')
            else get_prop data ''domainName'')], w)"

definition adminPassword_process :: "env \<Rightarrow> process" where
  \<comment> \<open>\<^verbatim>\<open>.trim()\<close> on a truthy value that is not a string throws; a failed password update
      is caught and the step still returns the empty object\<close>
  "adminPassword_process env data req w =
     (let adminPassword = get_prop data ''adminPassword'' in
      if \<not> truthy adminPassword then (Inr [], w)
      else
        (case adminPassword of
           JStr s \<Rightarrow>
             (if js_trim s \<noteq> [] then (Inr [], snd (updateAdminPassword env s w))
              else (Inr [], w))
         | _ \<Rightarrow> (Inl (TypeError ''data.adminPassword.trim is not a function''), w)))"

text \<open>
  The three templates are long markup texts; only that they are not empty matters to the
  registry, so each is shortened to its first element.
\<close>

definition getSubdomainStepTemplate :: string where
  "getSubdomainStepTemplate = ''<div class=form-group><p>Choose whether to enable or disable subdomains''"

definition getDomainStepTemplate :: string where
  "getDomainStepTemplate = ''<div class=form-group><p>Choose how users will access your Puter instance''"

definition getPasswordStepTemplate :: string where
  "getPasswordStepTemplate = ''<div class=form-group><p>Set a secure password for the admin user''"

definition subdomain_step :: step_def where
  "subdomain_step =
     \<lparr>sd_id = Some ''subdomain'', sd_title = Some ''Subdomain Configuration'',
      sd_description = Some ''Configure how subdomains work in your Puter instance'',
      sd_required = Some True, sd_order = ONum 10,
      sd_template = Some getSubdomainStepTemplate, sd_process = Some subdomain_process\<rparr>"

definition domain_step :: step_def where
  "domain_step =
     \<lparr>sd_id = Some ''domain'', sd_title = Some ''Domain Configuration'',
      sd_description = Some ''Set up the domain name for your Puter instance'',
      sd_required = Some True, sd_order = ONum 20,
      sd_template = Some getDomainStepTemplate, sd_process = Some domain_process\<rparr>"

definition adminPassword_step :: "env \<Rightarrow> step_def" where
  "adminPassword_step env =
     \<lparr>sd_id = Some ''adminPassword'', sd_title = Some ''Admin Password'',
      sd_description = Some ''Set the password for the admin user'',
      sd_required = Some True, sd_order = ONum 30,
      sd_template = Some getPasswordStepTemplate, sd_process = Some (adminPassword_process env)\<rparr>"

definition registerDefaultConfigSteps :: "env \<Rightarrow> config_step list \<Rightarrow> error + config_step list" where
  "registerDefaultConfigSteps env configSteps =
     (case registerConfigStep subdomain_step configSteps of
        Inl e \<Rightarrow> Inl e
      | Inr cs1 \<Rightarrow>
          (case registerConfigStep domain_step cs1 of
             Inl e \<Rightarrow> Inl e
           | Inr cs2 \<Rightarrow> registerConfigStep (adminPassword_step env) cs2))"

section \<open>The routes\<close>

definition reset_handler :: "request \<Rightarrow> world \<Rightarrow> response \<times> world" where
  "reset_handler req w =
     (case (if existsSync setup_completed_path w then unlinkSync setup_completed_path w
            else Inr w) of
        Inl e \<Rightarrow>
          (Json 500 [(''success'', JBool False),
                     (''message'', JStr ''Failed to reset configuration''),
                     (''error'', JStr (message e))], w)
      | Inr w1 \<Rightarrow>
          (Json 200 [(''success'', JBool True),
                     (''message'', JStr ''Configuration reset. Setup wizard will be displayed on next visit.''),
                     (''setupToken'', (case setupToken w of None \<Rightarrow> JNull | Some t \<Rightarrow> JStr t))],
           w1\<lparr>setupCompleted := False\<rparr>))"

definition reset_endpoint :: "request \<Rightarrow> world \<Rightarrow> response \<times> world" where
  \<comment> \<open>\<^verbatim>\<open>/__setup/reset\<close>, \<^verbatim>\<open>POST\<close>, \<^verbatim>\<open>middleware: [verifySetupToken]\<close>\<close>
  "reset_endpoint = Endpoint [verifySetupToken] reset_handler"

definition remove_token :: "world \<Rightarrow> world" where
  \<comment> \<open>\<^verbatim>\<open>if (setupToken) { try { fs.unlinkSync(tokenPath) } catch (err) { log } }\<close>\<close>
  "remove_token w =
     (case setupToken w of
        None \<Rightarrow> w
      | Some t \<Rightarrow>
          (if t = [] then w
           else (case unlinkSync tokenPath w of Inl err \<Rightarrow> w | Inr w1 \<Rightarrow> w1)))"

definition instructions :: "bool \<Rightarrow> obj \<Rightarrow> string" where
  "instructions needsRestart cfg =
     (if needsRestart
      then ''Your configuration has been saved. Please restart the Puter server to apply changes. Admin username: admin, Admin password: ''
      else ''Your configuration has been saved and applied successfully. Admin username: admin, Admin password: '')
     @ js_to_string (js_or (get_prop cfg ''__adminPassword'') (JStr ''9668fafe''))"

definition failure :: "string \<Rightarrow> error \<Rightarrow> response" where
  \<comment> \<open>\<^verbatim>\<open>res.status(500).json({ success: false, message, error: e.message })\<close>\<close>
  "failure msg e =
     Json 500 [(''success'', JBool False), (''message'', JStr msg), (''error'', JStr (message e))]"

definition configure_handler :: "config_step list \<Rightarrow> request \<Rightarrow> world \<Rightarrow> response \<times> world" where
  "configure_handler configSteps req w =
     (case processConfigSteps configSteps (req_body req) req w of
        (Inl e, w1) \<Rightarrow> (failure ''Failed to complete setup'' e, w1)
      | (Inr cfg, w1) \<Rightarrow>
          (case updateConfig cfg w1 of
             (Inl configError, w2) \<Rightarrow> (failure ''Failed to update configuration'' configError, w2)
           | (Inr _, w2) \<Rightarrow>
               (case markSetupCompleted (get_prop cfg ''__adminPassword'') w2 of
                  (Inl setupError, w3) \<Rightarrow>
                    (failure ''Failed to mark setup as completed'' setupError, w3)
                | (Inr _, w3) \<Rightarrow>
                    (let w4 = remove_token w3;
                         needsRestart = requiresRestart cfg
                     in (Json 200 [(''success'', JBool True),
                                   (''message'', JStr ''Setup completed successfully''),
                                   (''requiresRestart'', JBool needsRestart),
                                   (''instructions'', JStr (instructions needsRestart cfg))],
                         w4)))))"

definition configure_endpoint :: "config_step list \<Rightarrow> request \<Rightarrow> world \<Rightarrow> response \<times> world" where
  \<comment> \<open>\<^verbatim>\<open>/__setup/configure\<close>, \<^verbatim>\<open>POST\<close>, no \<^verbatim>\<open>middleware\<close> field\<close>
  "configure_endpoint configSteps = Endpoint [] (configure_handler configSteps)"

section \<open>Notions used to state the properties\<close>

text \<open>A sequence of calls of \<^verbatim>\<open>registerConfigStep\<close>; the first one that throws ends it.\<close>

fun register_all :: "step_def list \<Rightarrow> config_step list \<Rightarrow> error + config_step list" where
  "register_all [] configSteps = Inr configSteps"
| "register_all (step # steps) configSteps =
     (case registerConfigStep step configSteps of
        Inl e \<Rightarrow> Inl e
      | Inr configSteps' \<Rightarrow> register_all steps configSteps')"

definition defaultConfigSteps :: "env \<Rightarrow> config_step list" where
  \<comment> \<open>the entries of the three default steps, in the order of their registration\<close>
  "defaultConfigSteps env =
     List.map_filter entry_of [subdomain_step, domain_step, adminPassword_step env]"

definition succeeded :: "response \<Rightarrow> bool" where
  \<comment> \<open>status 200 with \<^verbatim>\<open>success: true\<close>\<close>
  "succeeded r =
     (case r of Json status ob \<Rightarrow> status = 200 \<and> get_prop ob ''success'' = JBool True
      | Redirect _ \<Rightarrow> False)"

definition same_setup_state :: "world \<Rightarrow> world \<Rightarrow> bool" where
  \<comment> \<open>the completion flag and marker, the token and its file, and the committed
      configuration are the same in both worlds\<close>
  "same_setup_state w w' =
     (setupCompleted w' = setupCompleted w \<and> setupToken w' = setupToken w
      \<and> files w' setup_completed_path = files w setup_completed_path
      \<and> files w' tokenPath = files w tokenPath
      \<and> files w' wizard_config_path = files w wizard_config_path
      \<and> config w' = config w)"

definition keeps_setup_state :: "config_step \<Rightarrow> bool" where
  \<comment> \<open>the step's own \<^verbatim>\<open>process\<close> does not touch the setup state\<close>
  "keeps_setup_state step =
     (\<forall>data req w. same_setup_state w (snd (cs_process step data req w)))"

section \<open>Test inputs\<close>

definition upd0 :: db_update where
  "upd0 uid h us = Inr (map (\<lambda>u. if user_id u = uid then u\<lparr>password := h\<rparr> else u) us)"

definition env0 :: env where
  "env0 = \<lparr>get_user = (\<lambda>n us. find (\<lambda>u. username u = n) us),
           bcrypt_hash = (\<lambda>p. ''hash:'' @ p),
           bcrypt_compare = (\<lambda>p h. h = ''hash:'' @ p),
           services = (\<lambda>n. if n = ''database''
                            then Some \<lparr>knex = Some upd0, query = None\<rparr> else None)\<rparr>"

definition world0 :: world where
  \<comment> \<open>a fresh installation: setup not completed, the token \<open>a3f1\<close> generated and persisted\<close>
  "world0 =
     \<lparr>setupCompleted = False, setupToken = Some ''a3f1'',
      files = [tokenPath \<mapsto> Text ''a3f1''], fs_fails = (\<lambda>p. False), config = [],
      users = [\<lparr>user_id = 1, uuid = ''u-1'', username = ''admin'', password = ''hash:old''\<rparr>],
      now = ''2024-01-01T00:00:00.000Z''\<rparr>"

definition form0 :: obj where
  "form0 = [(''subdomainBehavior'', JStr ''disabled''), (''domainName'', JStr ''example.com''),
            (''useNipIo'', JBool False), (''adminPassword'', JStr ''secretpw'')]"

definition configure_req :: "string \<Rightarrow> obj \<Rightarrow> request" where
  \<comment> \<open>\<^verbatim>\<open>POST /__setup/configure?token=...\<close> with a JSON body\<close>
  "configure_req token body =
     \<lparr>req_path = ''/__setup/configure'', req_method = ''POST'',
      req_query = [(''token'', JStr token)], req_body = body, req_ip = ''10.0.0.1''\<rparr>"

definition reset_req :: "string \<Rightarrow> request" where
  \<comment> \<open>\<^verbatim>\<open>POST /__setup/reset?token=...\<close>\<close>
  "reset_req token =
     \<lparr>req_path = ''/__setup/reset'', req_method = ''POST'',
      req_query = [(''token'', JStr token)], req_body = [], req_ip = ''10.0.0.1''\<rparr>"

definition run_log :: "world \<Rightarrow> string" where
  "run_log w = (case files w ''run.log'' of Some (Text t) \<Rightarrow> t | _ \<Rightarrow> [])"

definition probe_process :: "string \<Rightarrow> process" where
  \<comment> \<open>a step that notes its run in a file and returns one property\<close>
  "probe_process tag data req w =
     (Inr [(tag, JBool True)],
      w\<lparr>files := (files w)(''run.log'' \<mapsto> Text (run_log w @ tag @ '';''))\<rparr>)"

definition probe_step :: "string \<Rightarrow> string \<Rightarrow> order_val \<Rightarrow> step_def" where
  "probe_step i tag ord =
     \<lparr>sd_id = Some i, sd_title = Some ''Probe'', sd_description = None, sd_required = None,
      sd_order = ord, sd_template = Some ''<p>probe</p>'', sd_process = Some (probe_process tag)\<rparr>"

definition probe_entry :: "string \<Rightarrow> string \<Rightarrow> int \<Rightarrow> config_step" where
  "probe_entry i tag n =
     \<lparr>cs_id = i, cs_title = ''Probe'', cs_description = [], cs_required = True,
      cs_order = n, cs_template = ''<p>probe</p>'', cs_process = probe_process tag\<rparr>"

definition world_completed :: world where
  \<comment> \<open>the same installation after a completed setup: the marker is there\<close>
  "world_completed =
     world0\<lparr>setupCompleted := True,
            files := (files world0)(setup_completed_path \<mapsto> Text ''2024-01-01T00:00:00.000Z'')\<rparr>"

definition bad_form :: obj where
  \<comment> \<open>a body whose \<^verbatim>\<open>adminPassword\<close> is a number\<close>
  "bad_form = [(''subdomainBehavior'', JStr ''disabled''), (''domainName'', JStr ''example.com''),
               (''useNipIo'', JBool False), (''adminPassword'', JNum 12345)]"

definition probes_out_of_order :: "step_def list" where
  "probes_out_of_order =
     [probe_step ''a'' ''a'' (ONum 30), probe_step ''b'' ''b'' (ONum 10),
      probe_step ''c'' ''c'' (ONum 20), probe_step ''d'' ''d'' (ONum 10),
      probe_step ''e'' ''e'' (ONum 0)]"

definition probes_sorted :: "config_step list" where
  "probes_sorted =
     [probe_entry ''b'' ''b'' 10, probe_entry ''d'' ''d'' 10,
      probe_entry ''c'' ''c'' 20, probe_entry ''a'' ''a'' 30,
      probe_entry ''e'' ''e'' 999]"

definition probed_registry :: "config_step list" where
  \<comment> \<open>the default steps between a probe that runs first and a probe that runs last\<close>
  "probed_registry =
     probe_entry ''early'' ''early'' 5 # defaultConfigSteps env0 @ [probe_entry ''late'' ''late'' 40]"

section \<open>Evaluation\<close>

lemmas default_defs = defaultConfigSteps_def
  entry_of_def subdomain_step_def domain_step_def adminPassword_step_def
  getSubdomainStepTemplate_def getDomainStepTemplate_def getPasswordStepTemplate_def

lemmas path_defs = setup_completed_path_def admin_password_path_def tokenPath_def
  wizard_config_path_def passwordLogPath_def

lemmas eval_defs = configure_endpoint_def configure_handler_def processConfigSteps_def
  subdomain_process_def domain_process_def adminPassword_process_def updateAdminPassword_def
  findDatabaseService_def possibleServices_def db_set_password_def password_log_line_def
  updateConfig_def markSetupCompleted_def remove_token_def requiresRestart_def
  restartRequiredOptions_def instructions_def failure_def writeFile_def unlinkSync_def
  existsSync_def get_prop_def set_prop_def has_prop_def spread_def json_stringify_def js_or_def
  js_trim_def js_space_def env0_def upd0_def world0_def form0_def configure_req_def reset_req_def
  verifySetupToken_def token_differs_def reset_endpoint_def reset_handler_def isSetupCompleted_def
  succeeded_def

section \<open>The restart classifier\<close>

text \<open>
  Claim C7. \<^verbatim>\<open>requiresRestart\<close> is a total function without effects; it returns true
  exactly when one of the changed keys is among the five restart keys. A change of
  \<^verbatim>\<open>domain\<close> needs a restart, a change of \<^verbatim>\<open>unrelated_key\<close> alone does not, and neither
  does the empty change.
\<close>

theorem requiresRestart_spec:
  "(requiresRestart changed \<longleftrightarrow> set (map fst changed) \<inter> set restartRequiredOptions \<noteq> {})
   \<and> requiresRestart [(''domain'', v)]
   \<and> \<not> requiresRestart [(''unrelated_key'', v)]
   \<and> \<not> requiresRestart []"
  by (auto simp: requiresRestart_def has_prop_def restartRequiredOptions_def list_ex_iff)

theorem requiresRestart_spec_witness:
  "requiresRestart [(''theme'', JStr ''dark''), (''http_port'', JNum 8080)]
   \<and> set (map fst [(''theme'', JStr ''dark''), (''http_port'', JNum 8080)])
       \<inter> set restartRequiredOptions \<noteq> {}
   \<and> requiresRestart [(''domain'', JStr ''example.com'')]
   \<and> \<not> requiresRestart [(''unrelated_key'', JNum 1)]
   \<and> \<not> requiresRestart []"
  using requiresRestart_spec [of "[(''theme'', JStr ''dark''), (''http_port'', JNum 8080)]" "JStr ''example.com''"]
    requiresRestart_spec [of "[]" "JNum 1"]
  by (simp add: restartRequiredOptions_def)

section \<open>The registry: order of the entries\<close>

lemma entry_of_order:
  "entry_of step = Some e \<Longrightarrow> cs_order e = order_or_999 (sd_order step)"
  by (auto simp: entry_of_def split: option.splits if_splits)

lemma registerDefaultConfigSteps_empty:
  "registerDefaultConfigSteps env [] = Inr (defaultConfigSteps env)"
  by (simp add: registerDefaultConfigSteps_def registerConfigStep_def defaultConfigSteps_def
      entry_of_def subdomain_step_def domain_step_def adminPassword_step_def
      getSubdomainStepTemplate_def getDomainStepTemplate_def getPasswordStepTemplate_def)

lemma default_orders: "map cs_order (defaultConfigSteps env) = [10, 20, 30]"
  by (simp add: defaultConfigSteps_def
      entry_of_def subdomain_step_def domain_step_def adminPassword_step_def
      getSubdomainStepTemplate_def getDomainStepTemplate_def getPasswordStepTemplate_def)

lemma default_ids:
  "map cs_id (defaultConfigSteps env) = [''subdomain'', ''domain'', ''adminPassword'']"
  by (simp add: defaultConfigSteps_def
      entry_of_def subdomain_step_def domain_step_def adminPassword_step_def
      getSubdomainStepTemplate_def getDomainStepTemplate_def getPasswordStepTemplate_def)

lemma sort_key_snoc_last:
  assumes "sorted (map f xs)" and "\<forall>x\<in>set xs. f x \<le> f e"
  shows "sort_key f (xs @ [e]) = xs @ [e]"
  using assms by (intro sort_key_id_if_sorted) (auto simp: sorted_append)

lemma entry_of_probe:
  "entry_of (probe_step i tag ord) =
     (if i = [] then None else Some (probe_entry i tag (order_or_999 ord)))"
  by (simp add: entry_of_def probe_step_def probe_entry_def)

lemma default_entries:
  "\<exists>a b c. defaultConfigSteps env = [a, b, c]
     \<and> cs_order a = 10 \<and> cs_order b = 20 \<and> cs_order c = 30
     \<and> entry_of subdomain_step = Some a \<and> entry_of domain_step = Some b
     \<and> entry_of (adminPassword_step env) = Some c"
  by (simp add: default_defs)

text \<open>
  Claim C10. A step registered without \<^verbatim>\<open>order\<close>, with \<^verbatim>\<open>order: null\<close> or with
  \<^verbatim>\<open>order: 0\<close> is stored with order 999. Wherever it is registered among the three
  default steps (orders 10, 20, 30), before them, between them or after them, the
  sort puts it behind all three: it is the last entry of the registry, not the first.
\<close>

theorem falsy_order_sorted_last:
  assumes "sd_order step \<in> {OAbsent, ONull, ONum 0}" and "entry_of step = Some e"
  shows "cs_order e = 999
     \<and> registerDefaultConfigSteps env [] = Inr (defaultConfigSteps env)
     \<and> registerConfigStep step (defaultConfigSteps env) = Inr (defaultConfigSteps env @ [e])
     \<and> (\<forall>d \<in> set (defaultConfigSteps env). cs_order d < cs_order e)
     \<and> registerConfigStep step [] = Inr [e]
     \<and> registerDefaultConfigSteps env [e] = Inr (defaultConfigSteps env @ [e])
     \<and> register_all [step, subdomain_step, domain_step, adminPassword_step env] []
           = Inr (defaultConfigSteps env @ [e])
     \<and> register_all [subdomain_step, step, domain_step, adminPassword_step env] []
           = Inr (defaultConfigSteps env @ [e])
     \<and> register_all [subdomain_step, domain_step, step, adminPassword_step env] []
           = Inr (defaultConfigSteps env @ [e])
     \<and> register_all [subdomain_step, domain_step, adminPassword_step env, step] []
           = Inr (defaultConfigSteps env @ [e])"
proof -
  have o: "cs_order e = 999"
    using assms entry_of_order [OF assms(2)] by auto
  obtain a b c where d: "defaultConfigSteps env = [a, b, c]"
    "cs_order a = 10" "cs_order b = 20" "cs_order c = 30"
    "entry_of subdomain_step = Some a" "entry_of domain_step = Some b"
    "entry_of (adminPassword_step env) = Some c"
    using default_entries [of env] by blast
  have 1: "registerDefaultConfigSteps env [] = Inr (defaultConfigSteps env)"
    by (rule registerDefaultConfigSteps_empty)
  have 2: "registerConfigStep step (defaultConfigSteps env) = Inr (defaultConfigSteps env @ [e])"
    using assms(2) o d by (simp add: registerConfigStep_def)
  have 3: "\<forall>d \<in> set (defaultConfigSteps env). cs_order d < cs_order e"
    using o d by simp
  have 4: "registerConfigStep step [] = Inr [e]"
    using assms(2) by (simp add: registerConfigStep_def)
  have 5: "registerDefaultConfigSteps env [e] = Inr (defaultConfigSteps env @ [e])"
    using o d by (simp add: registerDefaultConfigSteps_def registerConfigStep_def)
  have 6: "register_all [step, subdomain_step, domain_step, adminPassword_step env] []
           = Inr (defaultConfigSteps env @ [e])"
    using assms(2) o d by (simp add: registerConfigStep_def)
  have 7: "register_all [subdomain_step, step, domain_step, adminPassword_step env] []
           = Inr (defaultConfigSteps env @ [e])"
    using assms(2) o d by (simp add: registerConfigStep_def)
  have 8: "register_all [subdomain_step, domain_step, step, adminPassword_step env] []
           = Inr (defaultConfigSteps env @ [e])"
    using assms(2) o d by (simp add: registerConfigStep_def)
  have 9: "register_all [subdomain_step, domain_step, adminPassword_step env, step] []
           = Inr (defaultConfigSteps env @ [e])"
    using assms(2) o d by (simp add: registerConfigStep_def)
  show ?thesis
    by (intro conjI) (rule o, rule 1, rule 2, rule 3, rule 4, rule 5, rule 6, rule 7, rule 8, rule 9)
qed

theorem falsy_order_sorted_last_witness:
  "sd_order (probe_step ''first'' ''first'' (ONum 0)) \<in> {OAbsent, ONull, ONum 0}
   \<and> entry_of (probe_step ''first'' ''first'' (ONum 0)) = Some (probe_entry ''first'' ''first'' 999)
   \<and> register_all [probe_step ''first'' ''first'' (ONum 0), subdomain_step, domain_step,
                    adminPassword_step env0] []
       = Inr (defaultConfigSteps env0 @ [probe_entry ''first'' ''first'' 999])
   \<and> registerConfigStep (probe_step ''first'' ''first'' (ONum 0)) (defaultConfigSteps env0)
       = Inr (defaultConfigSteps env0 @ [probe_entry ''first'' ''first'' 999])
   \<and> map cs_id (defaultConfigSteps env0 @ [probe_entry ''first'' ''first'' 999])
       = [''subdomain'', ''domain'', ''adminPassword'', ''first'']
   \<and> map cs_order (defaultConfigSteps env0 @ [probe_entry ''first'' ''first'' 999])
       = [10, 20, 30, 999]"
proof -
  have a: "sd_order (probe_step ''first'' ''first'' (ONum 0)) \<in> {OAbsent, ONull, ONum 0}"
    by (simp add: probe_step_def)
  have b: "entry_of (probe_step ''first'' ''first'' (ONum 0)) = Some (probe_entry ''first'' ''first'' 999)"
    by (simp add: entry_of_probe)
  note t = falsy_order_sorted_last [OF a b, of env0]
  from t have c: "register_all [probe_step ''first'' ''first'' (ONum 0), subdomain_step, domain_step,
                    adminPassword_step env0] []
       = Inr (defaultConfigSteps env0 @ [probe_entry ''first'' ''first'' 999])"
    by (elim conjE) assumption
  from t have d: "registerConfigStep (probe_step ''first'' ''first'' (ONum 0)) (defaultConfigSteps env0)
       = Inr (defaultConfigSteps env0 @ [probe_entry ''first'' ''first'' 999])"
    by (elim conjE) assumption
  have e: "map cs_id (defaultConfigSteps env0 @ [probe_entry ''first'' ''first'' 999])
       = [''subdomain'', ''domain'', ''adminPassword'', ''first'']"
    "map cs_order (defaultConfigSteps env0 @ [probe_entry ''first'' ''first'' 999])
       = [10, 20, 30, 999]"
    by (simp_all add: default_ids default_orders probe_entry_def)
  show ?thesis
    by (intro conjI) (rule a, rule b, rule c, rule d, rule e(1), rule e(2))
qed

lemma cs_order_probe [simp]: "cs_order (probe_entry i t n) = n"
  by (simp add: probe_entry_def)

lemma registerConfigStep_sorted:
  "registerConfigStep step reg = Inr reg' \<Longrightarrow> sorted (map cs_order reg')"
  by (auto simp: registerConfigStep_def split: option.splits)

text \<open>
  A sequence of registrations that all succeed: the registry grows by one entry per
  call, entries of equal order keep the order in which they came, and after the first
  call the registry is sorted.
\<close>

lemma register_all_props:
  "register_all defs reg = Inr reg' \<Longrightarrow>
     length reg' = length reg + length defs
     \<and> map Some (List.map_filter entry_of defs) = map entry_of defs
     \<and> (\<forall>k. filter (\<lambda>s. cs_order s = k) reg'
            = filter (\<lambda>s. cs_order s = k) (reg @ List.map_filter entry_of defs))
     \<and> (defs \<noteq> [] \<longrightarrow> sorted (map cs_order reg'))"
proof (induction defs arbitrary: reg)
  case Nil
  then show ?case by simp
next
  case (Cons d ds)
  from Cons.prems obtain e where e: "entry_of d = Some e"
    and r: "register_all ds (sort_key cs_order (reg @ [e])) = Inr reg'"
    by (auto simp: registerConfigStep_def split: option.splits sum.splits)
  note ih = Cons.IH [OF r]
  have s: "ds = [] \<Longrightarrow> sorted (map cs_order reg')"
    using r by auto
  have f: "\<And>k. filter (\<lambda>s. cs_order s = k) (sort_key cs_order (reg @ [e]))
      = filter (\<lambda>s. cs_order s = k) (reg @ [e])"
    by (rule sort_key_stable)
  show ?case
    using ih e s f by (auto simp: List.map_filter_simps)
qed

section \<open>The pipeline: one step after the other\<close>

lemma steps_loop_append:
  "steps_loop (xs @ ys) d rq c p w =
     (case steps_loop xs d rq c p w of
        (Inl e, w1) \<Rightarrow> (Inl e, w1)
      | (Inr (c1, p1), w1) \<Rightarrow> steps_loop ys d rq c1 p1 w1)"
  by (induction xs arbitrary: c p w) (auto split: prod.splits sum.splits)

lemma steps_loop_Inl:
  "steps_loop reg d rq c p w = (Inl e, w1) \<Longrightarrow>
     \<exists>pre s post c0 p0 w0. reg = pre @ s # post
        \<and> steps_loop pre d rq c p w = (Inr (c0, p0), w0)
        \<and> cs_process s d rq w0 = (Inl e, w1)"
proof (induction reg arbitrary: c p w)
  case Nil
  then show ?case by simp
next
  case (Cons a reg)
  show ?case
  proof (cases "cs_process a d rq w")
    case (Pair res w2)
    show ?thesis
    proof (cases res)
      case (Inl e')
      with Pair Cons.prems have "cs_process a d rq w = (Inl e, w1)" by simp
      then have "a # reg = [] @ a # reg \<and> steps_loop [] d rq c p w = (Inr (c, p), w)
          \<and> cs_process a d rq w = (Inl e, w1)" by simp
      then show ?thesis by blast
    next
      case (Inr sc)
      let ?c = "spread c sc"
      let ?p = "if cs_id a = ''adminPassword'' \<and> truthy (get_prop d ''adminPassword'')
             then get_prop d ''adminPassword'' else p"
      from Pair Inr Cons.prems have "steps_loop reg d rq ?c ?p w2 = (Inl e, w1)" by simp
      from Cons.IH [OF this] obtain pre s post c0 p0 w0 where
        *: "reg = pre @ s # post" "steps_loop pre d rq ?c ?p w2 = (Inr (c0, p0), w0)"
           "cs_process s d rq w0 = (Inl e, w1)" by blast
      then have "a # reg = (a # pre) @ s # post
          \<and> steps_loop (a # pre) d rq c p w = (Inr (c0, p0), w0)
          \<and> cs_process s d rq w0 = (Inl e, w1)"
        using Pair Inr by simp
      then show ?thesis by blast
    qed
  qed
qed

lemma register_all_entries:
  "register_all defs reg = Inr reg' \<Longrightarrow> \<forall>d\<in>set defs. entry_of d \<noteq> None"
proof (induction defs arbitrary: reg)
  case Nil
  show ?case by simp
next
  case (Cons d ds)
  then show ?case
    by (auto simp: registerConfigStep_def split: option.splits sum.splits)
qed

text \<open>From the empty registry, the result is the stable sort of the entries.\<close>

lemma register_all_sort:
  assumes "register_all defs [] = Inr reg"
  shows "sorted (map cs_order reg)"
    and "reg = sort_key cs_order (List.map_filter entry_of defs)"
proof -
  note p = register_all_props [OF assms]
  show srt: "sorted (map cs_order reg)"
  proof (cases "defs = []")
    case True with assms show ?thesis by simp
  next
    case False with p show ?thesis by simp
  qed
  have stab: "\<forall>k. filter (\<lambda>s. cs_order s = k) reg
            = filter (\<lambda>s. cs_order s = k) (List.map_filter entry_of defs)"
    using p by simp
  have ms: "mset reg = mset (List.map_filter entry_of defs)"
  proof (rule multiset_eqI)
    fix x
    have "count (mset reg) x = count (mset (filter (\<lambda>s. cs_order s = cs_order x) reg)) x"
      by simp
    also have "\<dots> = count (mset (filter (\<lambda>s. cs_order s = cs_order x)
                          (List.map_filter entry_of defs))) x"
      using stab by simp
    also have "\<dots> = count (mset (List.map_filter entry_of defs)) x" by simp
    finally show "count (mset reg) x = count (mset (List.map_filter entry_of defs)) x" .
  qed
  have "sort_key cs_order (List.map_filter entry_of defs) = reg"
  proof (rule properties_for_sort_key)
    show "mset reg = mset (List.map_filter entry_of defs)" by (rule ms)
    show "sorted (map cs_order reg)" by (rule srt)
    fix k assume "k \<in> set reg"
    show "filter (\<lambda>x. cs_order k = cs_order x) reg
        = filter (\<lambda>x. cs_order k = cs_order x) (List.map_filter entry_of defs)"
      using stab [rule_format, of "cs_order k"] by (simp add: eq_commute)
  qed
  then show "reg = sort_key cs_order (List.map_filter entry_of defs)" by simp
qed

subsection \<open>Probe steps: the order of execution, observed\<close>

lemma insort_key_map:
  "insort_key f (g x) (map g xs) = map g (insort_key (\<lambda>y. f (g y)) x xs)"
  by (induction xs) auto

lemma sort_key_map: "sort_key f (map g xs) = map g (sort_key (\<lambda>y. f (g y)) xs)"
  by (induction xs) (simp_all add: insort_key_map)

lemma probe_process_run_log:
  "run_log (snd (probe_process t d rq w)) = run_log w @ t @ '';''"
  by (simp add: probe_process_def run_log_def)

lemma probe_process_ok: "fst (probe_process t d rq w) = Inr [(t, JBool True)]"
  by (simp add: probe_process_def)

lemma steps_loop_probes:
  "run_log (snd (steps_loop (map (\<lambda>(t, ord). probe_entry t t (order_or_999 ord)) xs) d rq c p w))
     = run_log w @ concat (map (\<lambda>(t, ord). t @ '';'') xs)"
proof (induction xs arbitrary: c p w)
  case Nil
  show ?case by simp
next
  case (Cons x xs)
  obtain t ord where x: "x = (t, ord)" by (cases x)
  obtain w2 where pp: "probe_process t d rq w = (Inr [(t, JBool True)], w2)"
    using probe_process_ok [of t d rq w] by (cases "probe_process t d rq w") simp
  then have "run_log w2 = run_log w @ t @ '';''"
    using probe_process_run_log [of t d rq w] by simp
  then show ?case
    using x pp Cons.IH [of _ _ w2] by (simp add: probe_entry_def)
qed

lemma processConfigSteps_snd:
  "snd (processConfigSteps reg d rq w) = snd (steps_loop reg d rq [] JNull w)"
  by (simp add: processConfigSteps_def split: prod.splits sum.splits)

lemma map_filter_probes:
  assumes "\<forall>d\<in>set (map (\<lambda>(t, ord). probe_step t t ord) specs). entry_of d \<noteq> None"
  shows "List.map_filter entry_of (map (\<lambda>(t, ord). probe_step t t ord) specs)
     = map (\<lambda>(t, ord). probe_entry t t (order_or_999 ord)) specs"
  using assms
  by (induction specs) (auto simp: List.map_filter_simps entry_of_probe split: if_splits)

lemma probes_run_in_order:
  assumes "register_all (map (\<lambda>(t, ord). probe_step t t ord) specs) [] = Inr r"
  shows "run_log (snd (processConfigSteps r d rq w))
     = run_log w @ concat (map (\<lambda>(t, ord). t @ '';'')
                            (sort_key (\<lambda>(t, ord). order_or_999 ord) specs))"
proof -
  let ?ps = "\<lambda>(t, ord). probe_step t t ord"
  let ?pe = "\<lambda>(t, ord). probe_entry t t (order_or_999 ord)"
  have mf: "List.map_filter entry_of (map ?ps specs) = map ?pe specs"
    by (rule map_filter_probes) (rule register_all_entries [OF assms])
  have "r = sort_key cs_order (map ?pe specs)"
    using register_all_sort(2) [OF assms] mf by simp
  then have r: "r = map ?pe (sort_key (\<lambda>y. cs_order (?pe y)) specs)"
    by (simp add: sort_key_map)
  have "(\<lambda>y. cs_order (?pe y)) = (\<lambda>(t, ord). order_or_999 ord)"
    by (auto simp: fun_eq_iff)
  with r have "r = map ?pe (sort_key (\<lambda>(t, ord). order_or_999 ord) specs)" by simp
  then show ?thesis
    by (simp only: processConfigSteps_snd steps_loop_probes)
qed

lemma entry_of_stored_order:
  "entry_of d = Some e \<Longrightarrow>
     cs_order e = (case sd_order d of ONum n \<Rightarrow> if n = 0 then 999 else n | _ \<Rightarrow> 999)"
  by (auto simp: entry_of_def split: option.splits if_splits order_val.splits)

text \<open>
  Claim C6, as stated, fails for a step registered with order 0. Registered with the
  orders 0, 10 and 20, the three steps are stored with 999, 10 and 20, and the pipeline
  runs them as \<open>ten\<close>, \<open>twenty\<close>, \<open>zero\<close>: by the orders they were registered with that
  is 10, 20, 0, which is not ascending.
\<close>

theorem order_zero_runs_last:
  "register_all [probe_step ''zero'' ''zero'' (ONum 0), probe_step ''ten'' ''ten'' (ONum 10),
                 probe_step ''twenty'' ''twenty'' (ONum 20)] []
     = Inr [probe_entry ''ten'' ''ten'' 10, probe_entry ''twenty'' ''twenty'' 20,
            probe_entry ''zero'' ''zero'' 999]
   \<and> run_log (snd (processConfigSteps
         [probe_entry ''ten'' ''ten'' 10, probe_entry ''twenty'' ''twenty'' 20,
          probe_entry ''zero'' ''zero'' 999] [] (configure_req ''a3f1'' []) world0))
       = ''ten;twenty;zero;''
   \<and> \<not> sorted [10, 20, 0 :: int]"
  by (simp add: registerConfigStep_def entry_of_probe processConfigSteps_def probe_entry_def
      probe_process_def run_log_def world0_def tokenPath_def split: prod.splits)

text \<open>
  Claim C6, amended. The order that counts is the stored one: the order a step is
  registered with when that is a number other than 0, and 999 when it is missing,
  \<^verbatim>\<open>null\<close> or 0. Whatever steps are registered, in whatever sequence: the registry is
  sorted by ascending stored order, steps of equal stored order stand in the order of
  their registration (it is the stable sort of the entries), every single registration
  leaves a sorted registry, and the pipeline goes through the registry from the front:
  a step runs after the steps before it, on the state they left, if none of them threw.
  Observed with steps that note their own run: whatever their orders and the sequence
  of their registration, the runs are noted by ascending stored order, equal stored
  orders in the sequence of registration.
\<close>

theorem registry_sorted_stable_pipeline_in_order:
  assumes "register_all defs [] = Inr reg"
  shows "length reg = length defs
     \<and> sorted (map cs_order reg)
     \<and> (\<forall>k. filter (\<lambda>s. cs_order s = k) reg
            = filter (\<lambda>s. cs_order s = k) (List.map_filter entry_of defs))
     \<and> reg = sort_key cs_order (List.map_filter entry_of defs)
     \<and> (\<forall>step r r'. registerConfigStep step r = Inr r' \<longrightarrow> sorted (map cs_order r'))
     \<and> (\<forall>pre s post d rq c p w. reg = pre @ s # post \<longrightarrow>
           steps_loop reg d rq c p w =
             (case steps_loop pre d rq c p w of
                (Inl e, w1) \<Rightarrow> (Inl e, w1)
              | (Inr (c1, p1), w1) \<Rightarrow> steps_loop (s # post) d rq c1 p1 w1))
     \<and> (\<forall>specs r d rq w.
           register_all (map (\<lambda>(t, ord). probe_step t t ord) specs) [] = Inr r \<longrightarrow>
           run_log (snd (processConfigSteps r d rq w))
             = run_log w @ concat (map (\<lambda>(t, ord). t @ '';'')
                                    (sort_key (\<lambda>(t, ord). order_or_999 ord) specs)))
     \<and> (\<forall>d e. entry_of d = Some e \<longrightarrow>
           cs_order e = (case sd_order d of ONum n \<Rightarrow> if n = 0 then 999 else n | _ \<Rightarrow> 999))"
proof -
  note p = register_all_props [OF assms]
  have 1: "length reg = length defs" using p by simp
  have 2: "sorted (map cs_order reg)" by (rule register_all_sort(1) [OF assms])
  have 3: "\<forall>k. filter (\<lambda>s. cs_order s = k) reg
            = filter (\<lambda>s. cs_order s = k) (List.map_filter entry_of defs)"
    using p by simp
  have 4: "reg = sort_key cs_order (List.map_filter entry_of defs)"
    by (rule register_all_sort(2) [OF assms])
  have 5: "\<forall>step r r'. registerConfigStep step r = Inr r' \<longrightarrow> sorted (map cs_order r')"
    using registerConfigStep_sorted by blast
  have 6: "\<forall>pre s post d rq c p w. reg = pre @ s # post \<longrightarrow>
           steps_loop reg d rq c p w =
             (case steps_loop pre d rq c p w of
                (Inl e, w1) \<Rightarrow> (Inl e, w1)
              | (Inr (c1, p1), w1) \<Rightarrow> steps_loop (s # post) d rq c1 p1 w1)"
    using steps_loop_append by (auto simp del: steps_loop.simps)
  have 7: "\<forall>specs r d rq w.
           register_all (map (\<lambda>(t, ord). probe_step t t ord) specs) [] = Inr r \<longrightarrow>
           run_log (snd (processConfigSteps r d rq w))
             = run_log w @ concat (map (\<lambda>(t, ord). t @ '';'')
                                    (sort_key (\<lambda>(t, ord). order_or_999 ord) specs))"
    using probes_run_in_order by blast
  have 8: "\<forall>d e. entry_of d = Some e \<longrightarrow>
           cs_order e = (case sd_order d of ONum n \<Rightarrow> if n = 0 then 999 else n | _ \<Rightarrow> 999)"
    using entry_of_stored_order by blast
  show ?thesis
    by (intro conjI) (rule 1, rule 2, rule 3, rule 4, rule 5, rule 6, rule 7, rule 8)
qed

theorem registry_sorted_stable_pipeline_in_order_witness:
  "register_all probes_out_of_order [] = Inr probes_sorted
   \<and> map cs_order probes_sorted = [10, 10, 20, 30, 999]
   \<and> sorted (map cs_order probes_sorted)
   \<and> map cs_id (filter (\<lambda>s. cs_order s = 10) probes_sorted) = [''b'', ''d'']
   \<and> run_log (snd (processConfigSteps probes_sorted [] (configure_req ''a3f1'' []) world0))
       = ''b;d;c;a;e;''"
proof -
  have h: "register_all probes_out_of_order [] = Inr probes_sorted"
    by (simp add: probes_out_of_order_def probes_sorted_def registerConfigStep_def entry_of_probe)
  have "map cs_order probes_sorted = [10, 10, 20, 30, 999]"
    and "map cs_id (filter (\<lambda>s. cs_order s = 10) probes_sorted) = [''b'', ''d'']"
    by (simp_all add: probes_sorted_def probe_entry_def)
  moreover have
    "run_log (snd (processConfigSteps probes_sorted [] (configure_req ''a3f1'' []) world0))
       = ''b;d;c;a;e;''"
    by (simp add: probes_sorted_def processConfigSteps_def probe_entry_def probe_process_def
        run_log_def world0_def tokenPath_def split: prod.splits)
  ultimately show ?thesis
    using h registry_sorted_stable_pipeline_in_order [OF h] by simp
qed

section \<open>The registry: registering an id again\<close>

text \<open>
  Claim C4, as the code has it. \<^verbatim>\<open>registerConfigStep\<close> never looks for an entry with
  the same id: registering a step whose id is already there adds a second entry. With
  the step \<open>x\<close> registered as \<open>old\<close> and then as \<open>new\<close> the registry has two entries, the
  first still with the process \<open>old\<close>, and the pipeline runs both.
\<close>

theorem reregistering_does_not_replace:
  "registerConfigStep (probe_step ''x'' ''old'' (ONum 5)) [] = Inr [probe_entry ''x'' ''old'' 5]
   \<and> registerConfigStep (probe_step ''x'' ''new'' (ONum 5)) [probe_entry ''x'' ''old'' 5]
       = Inr [probe_entry ''x'' ''old'' 5, probe_entry ''x'' ''new'' 5]
   \<and> length [probe_entry ''x'' ''old'' 5, probe_entry ''x'' ''new'' 5]
       \<noteq> length [probe_entry ''x'' ''old'' 5]
   \<and> cs_process (probe_entry ''x'' ''old'' 5) \<noteq> cs_process (probe_entry ''x'' ''new'' 5)
   \<and> run_log (snd (processConfigSteps [probe_entry ''x'' ''old'' 5, probe_entry ''x'' ''new'' 5]
         [] (configure_req ''a3f1'' []) world0)) = ''old;new;''"
proof -
  have "fst (probe_process ''old'' [] (configure_req ''a3f1'' []) world0)
     \<noteq> fst (probe_process ''new'' [] (configure_req ''a3f1'' []) world0)"
    by (simp add: probe_process_def)
  then have "probe_process ''old'' \<noteq> probe_process ''new''" by metis
  then show ?thesis
    by (simp add: registerConfigStep_def entry_of_probe processConfigSteps_def probe_entry_def
        probe_process_def run_log_def world0_def tokenPath_def split: prod.splits)
qed

lemma steps_loop_reaches:
  assumes "steps_loop pre d rq c p w = (Inr (c1, p1), w1)"
  shows "steps_loop (pre @ s # post) d rq c p w =
     (case cs_process s d rq w1 of
        (Inl x, w2) \<Rightarrow> (Inl x, w2)
      | (Inr sc, w2) \<Rightarrow>
          steps_loop post d rq (spread c1 sc)
            (if cs_id s = ''adminPassword'' \<and> truthy (get_prop d ''adminPassword'')
             then get_prop d ''adminPassword'' else p1) w2)"
  using assms by (simp add: steps_loop_append)

text \<open>
  Claim C4, amended. Registering a well-formed step never replaces an entry: the new
  entry is added to the registry (which is then sorted), so the count grows by one,
  every earlier entry stays as it was, and the number of entries with the new step's id
  grows by one. The pipeline treats the earlier entries and the new one alike: each has
  its place in the registry, and its process is called, on the state left by the
  entries before it, whenever none of those threw.
\<close>

theorem registerConfigStep_adds_entry:
  assumes "entry_of step = Some e"
  shows "registerConfigStep step reg = Inr (sort_key cs_order (reg @ [e]))
     \<and> length (sort_key cs_order (reg @ [e])) = Suc (length reg)
     \<and> mset (sort_key cs_order (reg @ [e])) = add_mset e (mset reg)
     \<and> (\<forall>i. length (filter (\<lambda>s. cs_id s = i) (sort_key cs_order (reg @ [e])))
            = length (filter (\<lambda>s. cs_id s = i) reg) + (if cs_id e = i then 1 else 0))
     \<and> (\<forall>s \<in> set (reg @ [e]). \<exists>pre post.
           sort_key cs_order (reg @ [e]) = pre @ s # post
           \<and> (\<forall>d rq c p w c1 p1 w1.
                 steps_loop pre d rq c p w = (Inr (c1, p1), w1) \<longrightarrow>
                 steps_loop (sort_key cs_order (reg @ [e])) d rq c p w =
                   (case cs_process s d rq w1 of
                      (Inl x, w2) \<Rightarrow> (Inl x, w2)
                    | (Inr sc, w2) \<Rightarrow>
                        steps_loop post d rq (spread c1 sc)
                          (if cs_id s = ''adminPassword'' \<and> truthy (get_prop d ''adminPassword'')
                           then get_prop d ''adminPassword'' else p1) w2)))"
proof -
  have "\<And>i. mset (filter (\<lambda>s. cs_id s = i) (sort_key cs_order (reg @ [e])))
      = mset (filter (\<lambda>s. cs_id s = i) (reg @ [e]))"
    by simp
  then have "\<And>i. length (filter (\<lambda>s. cs_id s = i) (sort_key cs_order (reg @ [e])))
      = length (filter (\<lambda>s. cs_id s = i) (reg @ [e]))"
    by (metis size_mset)
  then have a4: "\<forall>i. length (filter (\<lambda>s. cs_id s = i) (sort_key cs_order (reg @ [e])))
            = length (filter (\<lambda>s. cs_id s = i) reg) + (if cs_id e = i then 1 else 0)"
    by simp
  have a1: "registerConfigStep step reg = Inr (sort_key cs_order (reg @ [e]))"
    using assms by (simp add: registerConfigStep_def)
  have a2: "length (sort_key cs_order (reg @ [e])) = Suc (length reg)" by simp
  have a3: "mset (sort_key cs_order (reg @ [e])) = add_mset e (mset reg)" by simp
  have b: "\<forall>s \<in> set (reg @ [e]). \<exists>pre post.
           sort_key cs_order (reg @ [e]) = pre @ s # post
           \<and> (\<forall>d rq c p w c1 p1 w1.
                 steps_loop pre d rq c p w = (Inr (c1, p1), w1) \<longrightarrow>
                 steps_loop (sort_key cs_order (reg @ [e])) d rq c p w =
                   (case cs_process s d rq w1 of
                      (Inl x, w2) \<Rightarrow> (Inl x, w2)
                    | (Inr sc, w2) \<Rightarrow>
                        steps_loop post d rq (spread c1 sc)
                          (if cs_id s = ''adminPassword'' \<and> truthy (get_prop d ''adminPassword'')
                           then get_prop d ''adminPassword'' else p1) w2))"
  proof
    fix s assume "s \<in> set (reg @ [e])"
    then have "s \<in> set (sort_key cs_order (reg @ [e]))" by simp
    from split_list [OF this]
    obtain pre post where sp: "sort_key cs_order (reg @ [e]) = pre @ s # post"
      by blast
    have "\<forall>d rq c p w c1 p1 w1.
                 steps_loop pre d rq c p w = (Inr (c1, p1), w1) \<longrightarrow>
                 steps_loop (pre @ s # post) d rq c p w =
                   (case cs_process s d rq w1 of
                      (Inl x, w2) \<Rightarrow> (Inl x, w2)
                    | (Inr sc, w2) \<Rightarrow>
                        steps_loop post d rq (spread c1 sc)
                          (if cs_id s = ''adminPassword'' \<and> truthy (get_prop d ''adminPassword'')
                           then get_prop d ''adminPassword'' else p1) w2)"
      using steps_loop_reaches by blast
    with sp show "\<exists>pre post.
           sort_key cs_order (reg @ [e]) = pre @ s # post
           \<and> (\<forall>d rq c p w c1 p1 w1.
                 steps_loop pre d rq c p w = (Inr (c1, p1), w1) \<longrightarrow>
                 steps_loop (sort_key cs_order (reg @ [e])) d rq c p w =
                   (case cs_process s d rq w1 of
                      (Inl x, w2) \<Rightarrow> (Inl x, w2)
                    | (Inr sc, w2) \<Rightarrow>
                        steps_loop post d rq (spread c1 sc)
                          (if cs_id s = ''adminPassword'' \<and> truthy (get_prop d ''adminPassword'')
                           then get_prop d ''adminPassword'' else p1) w2))"
      by (simp only:) blast
  qed
  show ?thesis
    by (intro conjI) (rule a1, rule a2, rule a3, rule a4, rule b)
qed

theorem registerConfigStep_adds_entry_witness:
  "entry_of (probe_step ''x'' ''new'' (ONum 5)) = Some (probe_entry ''x'' ''new'' 5)
   \<and> registerConfigStep (probe_step ''x'' ''new'' (ONum 5)) [probe_entry ''x'' ''old'' 5]
       = Inr [probe_entry ''x'' ''old'' 5, probe_entry ''x'' ''new'' 5]
   \<and> length (filter (\<lambda>s. cs_id s = ''x'')
        [probe_entry ''x'' ''old'' 5, probe_entry ''x'' ''new'' 5]) = 2
   \<and> fst (processConfigSteps [probe_entry ''x'' ''old'' 5, probe_entry ''x'' ''new'' 5]
         [] (configure_req ''a3f1'' []) world0)
       = Inr [(''old'', JBool True), (''new'', JBool True)]
   \<and> run_log (snd (processConfigSteps [probe_entry ''x'' ''old'' 5, probe_entry ''x'' ''new'' 5]
         [] (configure_req ''a3f1'' []) world0)) = ''old;new;''"
proof -
  have a: "entry_of (probe_step ''x'' ''new'' (ONum 5)) = Some (probe_entry ''x'' ''new'' 5)"
    by (simp add: entry_of_probe)
  have b: "sort_key cs_order ([probe_entry ''x'' ''old'' 5] @ [probe_entry ''x'' ''new'' 5])
      = [probe_entry ''x'' ''old'' 5, probe_entry ''x'' ''new'' 5]"
    by simp
  note t = registerConfigStep_adds_entry [OF a, of "[probe_entry ''x'' ''old'' 5]", unfolded b]
  from t have c: "registerConfigStep (probe_step ''x'' ''new'' (ONum 5)) [probe_entry ''x'' ''old'' 5]
       = Inr [probe_entry ''x'' ''old'' 5, probe_entry ''x'' ''new'' 5]"
    by (elim conjE) assumption
  have d: "length (filter (\<lambda>s. cs_id s = ''x'')
        [probe_entry ''x'' ''old'' 5, probe_entry ''x'' ''new'' 5]) = 2"
    by (simp add: probe_entry_def)
  have e: "fst (processConfigSteps [probe_entry ''x'' ''old'' 5, probe_entry ''x'' ''new'' 5]
         [] (configure_req ''a3f1'' []) world0)
       = Inr [(''old'', JBool True), (''new'', JBool True)]"
    by (simp add: processConfigSteps_def probe_entry_def probe_process_def spread_def
        split: prod.splits)
  have f: "run_log (snd (processConfigSteps [probe_entry ''x'' ''old'' 5, probe_entry ''x'' ''new'' 5]
         [] (configure_req ''a3f1'' []) world0)) = ''old;new;''"
    by (simp add: processConfigSteps_def probe_entry_def probe_process_def run_log_def
        world0_def tokenPath_def split: prod.splits)
  show ?thesis
    by (intro conjI) (rule a, rule c, rule d, rule e, rule f)
qed

section \<open>A step that throws\<close>

lemma same_setup_state_refl: "same_setup_state w w"
  by (simp add: same_setup_state_def)

lemma same_setup_state_trans:
  "same_setup_state w w1 \<Longrightarrow> same_setup_state w1 w2 \<Longrightarrow> same_setup_state w w2"
  by (simp add: same_setup_state_def)

lemma steps_loop_frame:
  "\<forall>s\<in>set reg. keeps_setup_state s \<Longrightarrow>
     same_setup_state w (snd (steps_loop reg d rq c p w))"
proof (induction reg arbitrary: c p w)
  case Nil
  show ?case by (simp add: same_setup_state_refl)
next
  case (Cons a reg)
  from Cons.prems have "keeps_setup_state a" by simp
  then have a: "same_setup_state w (snd (cs_process a d rq w))"
    unfolding keeps_setup_state_def by blast
  from Cons.prems have rest: "\<forall>s\<in>set reg. keeps_setup_state s" by simp
  show ?case
  proof (cases "cs_process a d rq w")
    case (Pair res w2)
    with a have w2: "same_setup_state w w2" by simp
    show ?thesis
    proof (cases res)
      case (Inl e)
      with Pair w2 show ?thesis by simp
    next
      case (Inr sc)
      let ?c = "spread c sc"
      let ?p = "if cs_id a = ''adminPassword'' \<and> truthy (get_prop d ''adminPassword'')
             then get_prop d ''adminPassword'' else p"
      have "same_setup_state w2 (snd (steps_loop reg d rq ?c ?p w2))"
        by (rule Cons.IH [OF rest])
      with w2 have "same_setup_state w (snd (steps_loop reg d rq ?c ?p w2))"
        by (rule same_setup_state_trans)
      with Pair Inr show ?thesis by simp
    qed
  qed
qed

lemma processConfigSteps_frame:
  assumes "\<forall>s\<in>set reg. keeps_setup_state s"
  shows "same_setup_state w (snd (processConfigSteps reg d rq w))"
  using steps_loop_frame [OF assms] by (simp add: processConfigSteps_snd)

lemma updateAdminPassword_frame:
  "same_setup_state w (snd (updateAdminPassword env pw w))"
  by (simp add: updateAdminPassword_def writeFile_def Let_def same_setup_state_def path_defs
      split: option.splits sum.splits)

lemma default_steps_keep_setup_state:
  "\<forall>s\<in>set (defaultConfigSteps env). keeps_setup_state s"
  by (simp add: default_defs keeps_setup_state_def subdomain_process_def domain_process_def
      adminPassword_process_def same_setup_state_refl updateAdminPassword_frame Let_def
      split: jsval.splits)

text \<open>
  Claim C5. When a step of the pipeline throws during a submission, the handler answers
  with the failure (status 500, the error's message) and does nothing else: the state
  is the one the throwing step left. The steps before it had run and succeeded, the
  steps after it do not run, and what the earlier steps returned is dropped. Unless a
  step's own \<^verbatim>\<open>process\<close> touches them, the completion flag and marker, the token and
  its file and the committed configuration are therefore unchanged; a setup that was
  not completed stays not completed, and the same submission can be sent again.
\<close>

theorem failing_step_aborts_setup:
  assumes "processConfigSteps reg (req_body req) req w = (Inl e, w1)"
  shows "configure_endpoint reg req w = (failure ''Failed to complete setup'' e, w1)
     \<and> \<not> succeeded (failure ''Failed to complete setup'' e)
     \<and> (\<exists>pre s post c0 p0 w0. reg = pre @ s # post
           \<and> steps_loop pre (req_body req) req [] JNull w = (Inr (c0, p0), w0)
           \<and> cs_process s (req_body req) req w0 = (Inl e, w1))
     \<and> ((\<forall>s\<in>set reg. keeps_setup_state s) \<longrightarrow>
           same_setup_state w w1 \<and> (\<not> setupCompleted w \<longrightarrow> \<not> setupCompleted w1))"
proof -
  have 1: "configure_endpoint reg req w = (failure ''Failed to complete setup'' e, w1)"
    using assms by (simp add: configure_endpoint_def configure_handler_def)
  have 2: "\<not> succeeded (failure ''Failed to complete setup'' e)"
    by (simp add: succeeded_def failure_def get_prop_def)
  have "steps_loop reg (req_body req) req [] JNull w = (Inl e, w1)"
    using assms by (auto simp: processConfigSteps_def split: prod.splits sum.splits)
  from steps_loop_Inl [OF this]
  have 3: "\<exists>pre s post c0 p0 w0. reg = pre @ s # post
           \<and> steps_loop pre (req_body req) req [] JNull w = (Inr (c0, p0), w0)
           \<and> cs_process s (req_body req) req w0 = (Inl e, w1)" .
  have 4: "(\<forall>s\<in>set reg. keeps_setup_state s) \<longrightarrow>
           same_setup_state w w1 \<and> (\<not> setupCompleted w \<longrightarrow> \<not> setupCompleted w1)"
  proof
    assume "\<forall>s\<in>set reg. keeps_setup_state s"
    from processConfigSteps_frame [OF this, of w "req_body req" req] assms
    have "same_setup_state w w1" by simp
    then show "same_setup_state w w1 \<and> (\<not> setupCompleted w \<longrightarrow> \<not> setupCompleted w1)"
      by (simp add: same_setup_state_def)
  qed
  show ?thesis
    by (intro conjI) (rule 1, rule 2, rule 3, rule 4)
qed

lemma probe_keeps_setup_state: "keeps_setup_state (probe_entry i t n)"
  by (simp add: keeps_setup_state_def probe_entry_def probe_process_def same_setup_state_def
      path_defs)

theorem failing_step_aborts_setup_witness:
  "register_all (probe_step ''early'' ''early'' (ONum 5) # subdomain_step # domain_step
       # adminPassword_step env0 # [probe_step ''late'' ''late'' (ONum 40)]) []
     = Inr probed_registry
   \<and> fst (processConfigSteps probed_registry bad_form (configure_req ''a3f1'' bad_form) world0)
       = Inl (TypeError ''data.adminPassword.trim is not a function'')
   \<and> list_all keeps_setup_state probed_registry
   \<and> fst (configure_endpoint probed_registry (configure_req ''a3f1'' bad_form) world0)
       = failure ''Failed to complete setup''
           (TypeError ''data.adminPassword.trim is not a function'')
   \<and> run_log (snd (configure_endpoint probed_registry (configure_req ''a3f1'' bad_form) world0))
       = ''early;''
   \<and> same_setup_state world0
        (snd (configure_endpoint probed_registry (configure_req ''a3f1'' bad_form) world0))
   \<and> \<not> setupCompleted world0
   \<and> \<not> setupCompleted
        (snd (configure_endpoint probed_registry (configure_req ''a3f1'' bad_form) world0))"
proof -
  let ?req = "configure_req ''a3f1'' bad_form"
  let ?e = "TypeError ''data.adminPassword.trim is not a function''"
  let ?w1 = "snd (processConfigSteps probed_registry (req_body ?req) ?req world0)"
  have reg: "register_all (probe_step ''early'' ''early'' (ONum 5) # subdomain_step # domain_step
       # adminPassword_step env0 # [probe_step ''late'' ''late'' (ONum 40)]) []
     = Inr probed_registry"
    by (simp add: probed_registry_def registerConfigStep_def probe_step_def default_defs
        probe_entry_def)
  have body: "req_body ?req = bad_form" by (simp add: configure_req_def)
  have f: "fst (processConfigSteps probed_registry (req_body ?req) ?req world0) = Inl ?e"
    by (simp add: probed_registry_def default_defs processConfigSteps_def probe_entry_def
        probe_process_def subdomain_process_def domain_process_def adminPassword_process_def
        configure_req_def bad_form_def get_prop_def Let_def split: prod.splits)
  have l: "run_log ?w1 = ''early;''"
    by (simp add: probed_registry_def default_defs processConfigSteps_def probe_entry_def
        probe_process_def subdomain_process_def domain_process_def adminPassword_process_def
        configure_req_def bad_form_def get_prop_def Let_def run_log_def world0_def path_defs
        split: prod.splits)
  have h: "processConfigSteps probed_registry (req_body ?req) ?req world0 = (Inl ?e, ?w1)"
    using f by (simp add: prod_eq_iff)
  have k: "\<forall>s\<in>set probed_registry. keeps_setup_state s"
    using default_steps_keep_setup_state [of env0]
    by (simp add: probed_registry_def probe_keeps_setup_state)
  have c: "\<not> setupCompleted world0" by (simp add: world0_def)
  show ?thesis
    using reg f l k c failing_step_aborts_setup [OF h]
    by (simp add: list_all_iff body)
qed

section \<open>Reset\<close>

text \<open>
  Claim C8. The reset handler succeeds when there is no completion marker; after a
  reset that succeeded the marker is gone, \<^verbatim>\<open>isSetupCompleted\<close> is false and so is the
  flag in memory; a second reset right after it succeeds too and changes nothing.
\<close>

theorem reset_idempotent:
  "(\<not> existsSync setup_completed_path w \<longrightarrow> succeeded (fst (reset_handler req w)))
   \<and> (succeeded (fst (reset_handler req w)) \<longrightarrow>
        \<not> isSetupCompleted (snd (reset_handler req w))
        \<and> \<not> setupCompleted (snd (reset_handler req w))
        \<and> succeeded (fst (reset_handler req' (snd (reset_handler req w))))
        \<and> snd (reset_handler req' (snd (reset_handler req w))) = snd (reset_handler req w))"
  by (auto simp: reset_handler_def succeeded_def existsSync_def unlinkSync_def
      isSetupCompleted_def get_prop_def split: if_splits)

theorem reset_idempotent_witness:
  "\<not> existsSync setup_completed_path world0
   \<and> succeeded (fst (reset_handler (reset_req ''a3f1'') world0))
   \<and> isSetupCompleted world_completed \<and> setupCompleted world_completed
   \<and> succeeded (fst (reset_handler (reset_req ''a3f1'') world_completed))
   \<and> \<not> isSetupCompleted (snd (reset_handler (reset_req ''a3f1'') world_completed))
   \<and> \<not> setupCompleted (snd (reset_handler (reset_req ''a3f1'') world_completed))
   \<and> succeeded (fst (reset_handler (reset_req ''a3f1'')
         (snd (reset_handler (reset_req ''a3f1'') world_completed))))"
proof -
  have a: "\<not> existsSync setup_completed_path world0"
    by (simp add: existsSync_def world0_def path_defs)
  have b: "isSetupCompleted world_completed \<and> setupCompleted world_completed"
    by (simp add: isSetupCompleted_def existsSync_def world_completed_def)
  have c: "succeeded (fst (reset_handler (reset_req ''a3f1'') world_completed))"
    by (simp add: world_completed_def eval_defs path_defs)
  show ?thesis
    using a b c
      reset_idempotent [of world0 "reset_req ''a3f1''" "reset_req ''a3f1''"]
      reset_idempotent [of world_completed "reset_req ''a3f1''" "reset_req ''a3f1''"]
    by simp
qed

section \<open>The password log\<close>

lemma updateAdminPassword_status:
  "fst (updateAdminPassword env pw (w\<lparr>fs_fails := g\<rparr>)) = fst (updateAdminPassword env pw w)"
  by (simp add: updateAdminPassword_def writeFile_def Let_def
      split: option.splits sum.splits)

text \<open>
  Claim C9. \<^verbatim>\<open>updateAdminPassword\<close> returns normally only when the stored hash has been
  updated and verified against the password. It then writes the password itself, not
  its hash, with the time, to \<^verbatim>\<open>config/admin-password-log.txt\<close>. When that write fails
  no file changes and the update still returns normally: whether it succeeds does not
  depend on the file system.
\<close>

theorem admin_password_logged_in_plaintext:
  assumes "fst (updateAdminPassword env pw w) = Inr ()"
  shows "passwordLogPath = ''config/admin-password-log.txt''
     \<and> (\<not> fs_fails w passwordLogPath \<longrightarrow>
          files (snd (updateAdminPassword env pw w)) passwordLogPath
            = Some (Text (''Admin password was set to: '' @ pw @ '' at '' @ now w)))
     \<and> (fs_fails w passwordLogPath \<longrightarrow> files (snd (updateAdminPassword env pw w)) = files w)
     \<and> fst (updateAdminPassword env pw (w\<lparr>fs_fails := g\<rparr>)) = Inr ()"
proof -
  have "fst (updateAdminPassword env pw (w\<lparr>fs_fails := g\<rparr>)) = Inr ()"
    using assms by (simp add: updateAdminPassword_status)
  moreover have "\<not> fs_fails w passwordLogPath \<longrightarrow>
          files (snd (updateAdminPassword env pw w)) passwordLogPath
            = Some (Text (''Admin password was set to: '' @ pw @ '' at '' @ now w))"
    using assms
    by (auto simp: updateAdminPassword_def writeFile_def Let_def password_log_line_def
        split: option.splits sum.splits if_splits)
  moreover have
    "fs_fails w passwordLogPath \<longrightarrow> files (snd (updateAdminPassword env pw w)) = files w"
    using assms
    by (auto simp: updateAdminPassword_def writeFile_def Let_def
        split: option.splits sum.splits if_splits)
  ultimately show ?thesis by (simp add: passwordLogPath_def)
qed

theorem admin_password_logged_in_plaintext_witness:
  "fst (updateAdminPassword env0 ''secretpw'' world0) = Inr ()
   \<and> \<not> fs_fails world0 passwordLogPath
   \<and> files (snd (updateAdminPassword env0 ''secretpw'' world0)) ''config/admin-password-log.txt''
       = Some (Text ''Admin password was set to: secretpw at 2024-01-01T00:00:00.000Z'')
   \<and> map password (users (snd (updateAdminPassword env0 ''secretpw'' world0))) = [''hash:secretpw'']
   \<and> fs_fails (world0\<lparr>fs_fails := (\<lambda>p. True)\<rparr>) passwordLogPath
   \<and> fst (updateAdminPassword env0 ''secretpw'' (world0\<lparr>fs_fails := (\<lambda>p. True)\<rparr>)) = Inr ()
   \<and> files (snd (updateAdminPassword env0 ''secretpw'' (world0\<lparr>fs_fails := (\<lambda>p. True)\<rparr>)))
        ''config/admin-password-log.txt'' = None"
proof -
  have a: "fst (updateAdminPassword env0 ''secretpw'' world0) = Inr ()"
    by (simp add: eval_defs path_defs Let_def)
  have b: "fst (updateAdminPassword env0 ''secretpw'' (world0\<lparr>fs_fails := (\<lambda>p. True)\<rparr>)) = Inr ()"
    by (simp add: eval_defs path_defs Let_def)
  have c: "map password (users (snd (updateAdminPassword env0 ''secretpw'' world0)))
      = [''hash:secretpw'']"
    by (simp add: eval_defs path_defs Let_def)
  have d: "files world0 ''config/admin-password-log.txt'' = None"
    "now world0 = ''2024-01-01T00:00:00.000Z''" "\<not> fs_fails world0 passwordLogPath"
    by (simp_all add: world0_def path_defs)
  show ?thesis
    using a b c d
      admin_password_logged_in_plaintext [OF a, of "\<lambda>p. True"]
      admin_password_logged_in_plaintext [OF b, of "\<lambda>p. True"]
    by simp
qed

section \<open>Where the code departs from its own design\<close>

text \<open>
  Claim C1. The route \<^verbatim>\<open>/__setup/configure\<close> is attached without the middleware that the
  route \<^verbatim>\<open>/__setup/reset\<close> has. On a fresh installation whose token is \<open>a3f1\<close>, a
  submission with the token \<open>wrong\<close> would be redirected by \<^verbatim>\<open>verifySetupToken\<close>, and the
  reset route does redirect it; the configure route runs the pipeline, commits the
  configuration, marks the setup completed and answers with success.
\<close>

theorem configure_runs_without_token_check:
  "setupToken world0 = Some ''a3f1''
   \<and> \<not> setupCompleted world0
   \<and> verifySetupToken (configure_req ''wrong'' form0) world0
       = Responded (Redirect ''/__setup/token'')
   \<and> fst (reset_endpoint (reset_req ''wrong'') world0) = Redirect ''/__setup/token''
   \<and> succeeded (fst (configure_endpoint (defaultConfigSteps env0)
        (configure_req ''wrong'' form0) world0))
   \<and> setupCompleted (snd (configure_endpoint (defaultConfigSteps env0)
        (configure_req ''wrong'' form0) world0))
   \<and> config (snd (configure_endpoint (defaultConfigSteps env0)
        (configure_req ''wrong'' form0) world0)) \<noteq> config world0"
  by (simp add: default_defs path_defs eval_defs Let_def)

theorem configure_runs_without_token_check_witness:
  "js_or (get_prop (req_query (configure_req ''wrong'' form0)) ''token'')
         (get_prop (req_body (configure_req ''wrong'' form0)) ''token'') = JStr ''wrong''
   \<and> truthy (JStr ''wrong'')
   \<and> token_differs (JStr ''wrong'') (setupToken world0)
   \<and> verifySetupToken (configure_req ''wrong'' form0) world0
       = Responded (Redirect ''/__setup/token'')
   \<and> succeeded (fst (configure_endpoint (defaultConfigSteps env0)
        (configure_req ''wrong'' form0) world0))"
  using configure_runs_without_token_check
  by (simp add: token_differs_def js_or_def get_prop_def configure_req_def form0_def)

text \<open>
  Claim C2. \<^verbatim>\<open>processConfigSteps\<close> stores the admin password in the object it returns,
  under the key \<^verbatim>\<open>__adminPassword\<close>, and the handler passes that whole object to
  \<^verbatim>\<open>updateConfig\<close>. For the submission with the password \<open>secretpw\<close> the password becomes
  a property of the application's configuration object and of
  \<^verbatim>\<open>config/wizard-config.json\<close>.
\<close>

theorem admin_password_written_to_config:
  "get_prop (config world0) ''__adminPassword'' = JUndef
   \<and> fst (processConfigSteps (defaultConfigSteps env0) form0 (configure_req ''a3f1'' form0) world0)
       = Inr [(''experimental_no_subdomain'', JBool True), (''domain'', JStr ''example.com''),
              (''__adminPassword'', JStr ''secretpw'')]
   \<and> succeeded (fst (configure_endpoint (defaultConfigSteps env0)
        (configure_req ''a3f1'' form0) world0))
   \<and> config (snd (configure_endpoint (defaultConfigSteps env0) (configure_req ''a3f1'' form0) world0))
       = [(''experimental_no_subdomain'', JBool True), (''domain'', JStr ''example.com''),
          (''__adminPassword'', JStr ''secretpw'')]
   \<and> files (snd (configure_endpoint (defaultConfigSteps env0) (configure_req ''a3f1'' form0) world0))
        ''config/wizard-config.json''
       = Some (JsonText [(''experimental_no_subdomain'', JBool True),
                         (''domain'', JStr ''example.com''),
                         (''__adminPassword'', JStr ''secretpw'')])"
  by (simp add: default_defs path_defs eval_defs Let_def)

theorem admin_password_written_to_config_witness:
  "\<not> has_prop ''__adminPassword'' (config world0)
   \<and> has_prop ''__adminPassword''
        (config (snd (configure_endpoint (defaultConfigSteps env0)
           (configure_req ''a3f1'' form0) world0)))
   \<and> get_prop (config (snd (configure_endpoint (defaultConfigSteps env0)
           (configure_req ''a3f1'' form0) world0))) ''__adminPassword'' = JStr ''secretpw''"
  using admin_password_written_to_config
  by (simp add: has_prop_def get_prop_def world0_def)

text \<open>
  Claim C3. After a successful setup the token file is removed, but the variable
  \<^verbatim>\<open>setupToken\<close> that \<^verbatim>\<open>verifySetupToken\<close> compares with keeps its value. A reset request
  that carries the old token \<open>a3f1\<close> passes the token check after the setup, and the reset is
  carried out.
\<close>

theorem old_token_authorized_after_setup:
  "verifySetupToken (configure_req ''a3f1'' form0) world0 = Next
   \<and> succeeded (fst (configure_endpoint (defaultConfigSteps env0)
        (configure_req ''a3f1'' form0) world0))
   \<and> setupCompleted (snd (configure_endpoint (defaultConfigSteps env0)
        (configure_req ''a3f1'' form0) world0))
   \<and> files (snd (configure_endpoint (defaultConfigSteps env0) (configure_req ''a3f1'' form0) world0))
        ''config/setup-token'' = None
   \<and> setupToken (snd (configure_endpoint (defaultConfigSteps env0)
        (configure_req ''a3f1'' form0) world0)) = Some ''a3f1''
   \<and> verifySetupToken (reset_req ''a3f1'')
        (snd (configure_endpoint (defaultConfigSteps env0) (configure_req ''a3f1'' form0) world0))
       = Next
   \<and> succeeded (fst (reset_endpoint (reset_req ''a3f1'')
        (snd (configure_endpoint (defaultConfigSteps env0) (configure_req ''a3f1'' form0) world0))))
   \<and> \<not> setupCompleted (snd (reset_endpoint (reset_req ''a3f1'')
        (snd (configure_endpoint (defaultConfigSteps env0) (configure_req ''a3f1'' form0) world0))))"
  by (simp add: default_defs path_defs eval_defs Let_def)

theorem old_token_authorized_after_setup_witness:
  "truthy (JStr ''a3f1'')
   \<and> \<not> token_differs (JStr ''a3f1'')
        (setupToken (snd (configure_endpoint (defaultConfigSteps env0)
           (configure_req ''a3f1'' form0) world0)))
   \<and> verifySetupToken (reset_req ''a3f1'')
        (snd (configure_endpoint (defaultConfigSteps env0) (configure_req ''a3f1'' form0) world0))
       = Next"
  using old_token_authorized_after_setup
  by (simp add: token_differs_def)

end
